theory Spec2Isabelle
  imports Complex_Main "HOL-Library.Char_ord" "HOL-Library.List_Lexorder"
begin

section \<open>Strings\<close>

text \<open>
  A \<open>string\<close> stands for a JavaScript string all of whose UTF-16 code units are below 256;
  one \<open>char\<close> is one code unit. The order on strings (\<open>List_Lexorder\<close> over \<open>Char_ord\<close>) is
  the order of JavaScript's \<open><\<close> on strings: code unit by code unit, a proper prefix first.
\<close>

definition is_ws :: "char \<Rightarrow> bool" where
  \<comment> \<open>the white space and line terminator code units below 256 that \<open>String.prototype.trim\<close> strips\<close>
  "is_ws c = ((of_char c :: nat) \<in> {9, 10, 11, 12, 13, 32, 160})"

definition trim :: "string \<Rightarrow> string" where
  "trim s = rev (dropWhile is_ws (rev (dropWhile is_ws s)))"

definition lower_char :: "char \<Rightarrow> char" where
  "lower_char c =
     (let n = (of_char c :: nat)
      in if (65 \<le> n \<and> n \<le> 90) \<or> (192 \<le> n \<and> n \<le> 222 \<and> n \<noteq> 215) then char_of (n + 32) else c)"

definition toLowerCase :: "string \<Rightarrow> string" where
  "toLowerCase s = map lower_char s"

fun startsWith :: "string \<Rightarrow> string \<Rightarrow> bool" where
  "startsWith s [] = True"
| "startsWith [] (q # qs) = False"
| "startsWith (c # cs) (q # qs) = (c = q \<and> startsWith cs qs)"

fun str_includes :: "string \<Rightarrow> string \<Rightarrow> bool" where
  \<comment> \<open>\<open>s.includes(q)\<close>: \<open>q\<close> occurs in \<open>s\<close> as a contiguous run\<close>
  "str_includes [] q = (q = [])"
| "str_includes (c # cs) q = (startsWith (c # cs) q \<or> str_includes cs q)"

section \<open>Numbers\<close>

text \<open>
  A JavaScript number is an IEEE 754 binary64 value, and \<open>/\<close> and \<open>*\<close> give the binary64 value
  nearest to the exact result, a tie going to the even significand. \<open>to_double x\<close> is that
  value for a rational \<open>x\<close>, the exponent range taken as unbounded: the numbers rounded here
  lie between \<open>2\<^sup>-\<^sup>3\<^sup>2\<close> and 101, far from the subnormal numbers and from overflow.
  \<open>pow2_floor x\<close> is the largest power of two not above a positive \<open>x\<close>.
\<close>

function pow2_floor :: "rat \<Rightarrow> rat" where
  "pow2_floor x =
     (if x \<le> 0 then 1
      else if 2 \<le> x then 2 * pow2_floor (x / 2)
      else if x < 1 then pow2_floor (2 * x) / 2
      else 1)"
  by pat_completeness auto
termination
proof (relation "measure (\<lambda>x. nat \<lfloor>x\<rfloor> + 2 * nat \<lceil>1 / x\<rceil>)")
  show "wf (measure (\<lambda>x. nat \<lfloor>x\<rfloor> + 2 * nat \<lceil>1 / x\<rceil>))" by simp
next
  fix x :: rat
  assume a: "\<not> x \<le> 0" "2 \<le> x"
  have 1: "\<lceil>1 / x\<rceil> = 1" using a by (simp add: ceiling_eq_iff)
  have 2: "\<lceil>1 / (x / 2)\<rceil> = 1" using a by (simp add: ceiling_eq_iff)
  have "\<lfloor>x / 2\<rfloor> < \<lfloor>x\<rfloor>" using a by linarith
  moreover have "0 \<le> \<lfloor>x / 2\<rfloor>" using a by simp
  ultimately have "nat \<lfloor>x / 2\<rfloor> < nat \<lfloor>x\<rfloor>" by linarith
  then show "(x / 2, x) \<in> measure (\<lambda>x. nat \<lfloor>x\<rfloor> + 2 * nat \<lceil>1 / x\<rceil>)"
    unfolding in_measure 1 2 by linarith
next
  fix x :: rat
  assume a: "\<not> x \<le> 0" "\<not> 2 \<le> x" "x < 1"
  have f: "\<lfloor>x\<rfloor> = 0" using a by (simp add: floor_eq_iff)
  have g: "\<lfloor>2 * x\<rfloor> \<le> 1" using a by (simp add: floor_le_iff)
  have g0: "0 \<le> \<lfloor>2 * x\<rfloor>" using a by simp
  have y: "1 < 1 / x" using a by simp
  then have c2: "2 \<le> \<lceil>1 / x\<rceil>" by linarith
  have "1 / (2 * x) = (1 / x) / 2" by simp
  also have "\<dots> \<le> of_int \<lceil>1 / x\<rceil> / 2" by (simp add: divide_right_mono)
  also have "\<dots> \<le> of_int (\<lceil>1 / x\<rceil> - 1)" using c2 by simp
  finally have "\<lceil>1 / (2 * x)\<rceil> \<le> \<lceil>1 / x\<rceil> - 1" by (rule ceiling_le)
  moreover have "0 < \<lceil>1 / (2 * x)\<rceil>" using a by simp
  ultimately have n1: "nat \<lceil>1 / (2 * x)\<rceil> < nat \<lceil>1 / x\<rceil>" by linarith
  have n2: "nat \<lfloor>2 * x\<rfloor> \<le> 1" using g g0 by linarith
  have n3: "nat \<lfloor>x\<rfloor> = 0" using f by simp
  show "(2 * x, x) \<in> measure (\<lambda>x. nat \<lfloor>x\<rfloor> + 2 * nat \<lceil>1 / x\<rceil>)"
    unfolding in_measure using n1 n2 n3 by linarith
qed

definition round_even :: "rat \<Rightarrow> int" where
  "round_even x =
     (let f = \<lfloor>x\<rfloor>; d = x - of_int f
      in if d < 1 / 2 then f else if 1 / 2 < d then f + 1 else if even f then f else f + 1)"

definition to_double :: "rat \<Rightarrow> rat" where
  "to_double x =
     (if x = 0 then 0
      else (let ulp = pow2_floor \<bar>x\<bar> / 2 ^ 52 in of_int (round_even (x / ulp)) * ulp))"

definition mathRound :: "rat \<Rightarrow> int" where
  "mathRound x = \<lfloor>x + 1 / 2\<rfloor>"

section \<open>The Todo interface\<close>

datatype priority = Low | Medium | High

fun priority_str :: "priority \<Rightarrow> string" where
  "priority_str Low = ''low''"
| "priority_str Medium = ''medium''"
| "priority_str High = ''high''"

text \<open>
  \<open>created_at\<close> is an ISO-8601 timestamp assigned by the store. The code reads it only as
  \<open>new Date(created_at).getTime()\<close>, so the record holds that number: milliseconds since the epoch.
\<close>

record todo =
  id' :: int
  task :: string
  completed :: bool
  created_at :: int
  category :: string
  priority :: priority
  due_date :: "string option"
  notes' :: "string option"

section \<open>Application state\<close>

text \<open>
  Todo objects and arrays live in a store, since the code mutates both in place: \<open>objs\<close> maps an
  object reference to the object, \<open>arrays\<close> maps an array reference to its elements (object
  references). \<open>todos\<close> is the array that \<open>todos.value\<close> refers to.
\<close>

type_synonym ref = nat
type_synonym addr = nat

record state =
  objs :: "ref \<Rightarrow> todo"
  next_ref :: ref
  arrays :: "addr \<Rightarrow> ref list"
  next_addr :: addr
  todos :: addr
  newTask :: string
  newCategory :: string
  newPriority :: priority
  newDueDate :: string
  newNotes :: string
  loading :: bool
  searchQuery :: string
  selectedFilter :: string
  selectedCategory :: string
  selectedPriority :: string
  darkMode :: bool
  editingTodo :: "int option"
  editText :: string

definition collection :: "state \<Rightarrow> todo list" where
  \<comment> \<open>the local task collection: the objects of \<open>todos.value\<close>, in order\<close>
  "collection s = map (objs s) (arrays s (todos s))"

definition new_array :: "ref list \<Rightarrow> state \<Rightarrow> addr \<times> state" where
  "new_array rs s =
     (next_addr s, s\<lparr>arrays := (arrays s)(next_addr s := rs), next_addr := Suc (next_addr s)\<rparr>)"

definition new_obj :: "todo \<Rightarrow> state \<Rightarrow> ref \<times> state" where
  "new_obj t s =
     (next_ref s, s\<lparr>objs := (objs s)(next_ref s := t), next_ref := Suc (next_ref s)\<rparr>)"

definition array_filter :: "(todo \<Rightarrow> bool) \<Rightarrow> addr \<Rightarrow> state \<Rightarrow> addr \<times> state" where
  \<comment> \<open>\<open>Array.prototype.filter\<close>: a new array, the elements shared\<close>
  "array_filter p a s = new_array (filter (\<lambda>r. p (objs s r)) (arrays s a)) s"

fun insort_cmp :: "('a \<Rightarrow> 'a \<Rightarrow> int) \<Rightarrow> 'a \<Rightarrow> 'a list \<Rightarrow> 'a list" where
  "insort_cmp cmp x [] = [x]"
| "insort_cmp cmp x (y # ys) = (if cmp x y \<le> 0 then x # y # ys else y # insort_cmp cmp x ys)"

definition sort_cmp :: "('a \<Rightarrow> 'a \<Rightarrow> int) \<Rightarrow> 'a list \<Rightarrow> 'a list" where
  \<comment> \<open>the stable sort by a comparator\<close>
  "sort_cmp cmp xs = foldr (insort_cmp cmp) xs []"

definition array_sort :: "(todo \<Rightarrow> todo \<Rightarrow> int) \<Rightarrow> addr \<Rightarrow> state \<Rightarrow> addr \<times> state" where
  \<comment> \<open>\<open>Array.prototype.sort\<close>: sorts the array in place and returns it\<close>
  "array_sort cmp a s =
     (a, s\<lparr>arrays := (arrays s)(a := sort_cmp (\<lambda>x y. cmp (objs s x) (objs s y)) (arrays s a))\<rparr>)"

definition array_unshift :: "ref \<Rightarrow> addr \<Rightarrow> state \<Rightarrow> state" where
  "array_unshift r a s = s\<lparr>arrays := (arrays s)(a := r # arrays s a)\<rparr>"

section \<open>Computed properties\<close>

fun priorityOrder :: "priority \<Rightarrow> int" where
  "priorityOrder High = 3"
| "priorityOrder Medium = 2"
| "priorityOrder Low = 1"

definition compareTodos :: "todo \<Rightarrow> todo \<Rightarrow> int" where
  "compareTodos a b =
     (if priorityOrder (priority a) \<noteq> priorityOrder (priority b)
      then priorityOrder (priority b) - priorityOrder (priority a)
      else created_at b - created_at a)"

definition matchesSearch :: "string \<Rightarrow> todo \<Rightarrow> bool" where
  "matchesSearch q t =
     (str_includes (toLowerCase (task t)) (toLowerCase q) \<or>
      (case notes' t of None \<Rightarrow> False
       | Some n \<Rightarrow> n \<noteq> [] \<and> str_includes (toLowerCase n) (toLowerCase q)))"

definition isOverdue :: "string \<Rightarrow> todo \<Rightarrow> bool" where
  \<comment> \<open>\<open>today\<close> is \<open>new Date().toISOString().split('T')[0]\<close>\<close>
  "isOverdue today t =
     (\<not> completed t \<and> (case due_date t of None \<Rightarrow> False | Some d \<Rightarrow> d \<noteq> [] \<and> d < today))"

definition filteredTodos :: "string \<Rightarrow> state \<Rightarrow> addr \<times> state" where
  "filteredTodos today s0 =
     (let (filtered, s) = (todos s0, s0);
          (filtered, s) =
            (if searchQuery s \<noteq> [] then array_filter (matchesSearch (searchQuery s)) filtered s
             else (filtered, s));
          (filtered, s) =
            (if selectedFilter s = ''pending'' then array_filter (\<lambda>t. \<not> completed t) filtered s
             else if selectedFilter s = ''completed'' then array_filter completed filtered s
             else if selectedFilter s = ''overdue'' then array_filter (isOverdue today) filtered s
             else (filtered, s));
          (filtered, s) =
            (if selectedCategory s \<noteq> ''all''
             then array_filter (\<lambda>t. category t = selectedCategory s) filtered s
             else (filtered, s));
          (filtered, s) =
            (if selectedPriority s \<noteq> ''all''
             then array_filter (\<lambda>t. priority_str (priority t) = selectedPriority s) filtered s
             else (filtered, s))
      in array_sort compareTodos filtered s)"

definition completionPercentage :: "state \<Rightarrow> int" where
  "completionPercentage s =
     (let ts = arrays s (todos s)
      in if length ts = 0 then 0
         else mathRound (to_double (to_double
                (of_nat (length (filter (\<lambda>r. completed (objs s r)) ts)) / of_nat (length ts)) * 100)))"

section \<open>The store round trip\<close>

record todoData =
  d_task :: string
  d_completed :: bool
  d_category :: string
  d_priority :: priority
  d_due_date :: "string option"
  d_notes :: "string option"

datatype request =
    Insert todoData
  | UpdateCompleted bool int
  | UpdateTask string int
  | DeleteEq int
  | DeleteIn "int list"

text \<open>
  What an awaited call gives back: \<open>Response err data\<close> is a resolved promise, \<open>err\<close> telling
  whether its \<open>error\<close> field is set and \<open>data\<close> its rows (\<open>None\<close> for \<open>null\<close>); \<open>Rejected\<close>
  is a promise that rejects, which the handler's \<open>catch\<close> receives.
\<close>

datatype response = Response bool "todo list option" | Rejected

fun failed :: "response \<Rightarrow> bool" where
  "failed (Response err d) = err"
| "failed Rejected = True"

section \<open>Event handlers\<close>

text \<open>
  An \<open>await\<close> cuts a handler in two: \<open>f_begin\<close> runs at the call and yields the request sent
  (\<open>None\<close> when the handler returns before any round trip); \<open>f_resolve\<close> runs when the response
  arrives, on the state of that moment. \<open>f resp s\<close> runs both with nothing in between,
  \<open>resp\<close> being what the round trip gives back, and returns the final state with the requests sent. Console output is
  not part of the state.
\<close>

definition initial :: state where
  \<comment> \<open>the refs as the script declares them; \<open>todos.value\<close> is an empty array\<close>
  "initial =
     \<lparr>objs = (\<lambda>r. \<lparr>id' = 0, task = [], completed = False, created_at = 0, category = [],
                    priority = Medium, due_date = None, notes' = None\<rparr>),
      next_ref = 0, arrays = (\<lambda>a. []), next_addr = 1, todos = 0,
      newTask = [], newCategory = ''personal'', newPriority = Medium, newDueDate = [],
      newNotes = [], loading = False, searchQuery = [], selectedFilter = ''all'',
      selectedCategory = ''all'', selectedPriority = ''all'', darkMode = True,
      editingTodo = None, editText = []\<rparr>"

fun new_objs :: "todo list \<Rightarrow> state \<Rightarrow> ref list \<times> state" where
  \<comment> \<open>the rows of a response are objects of their own\<close>
  "new_objs [] s = ([], s)"
| "new_objs (row # rows) s =
     (let (r, s1) = new_obj row s; (rs, s2) = new_objs rows s1 in (r # rs, s2))"

definition fetchTodos_begin :: "state \<Rightarrow> state" where
  "fetchTodos_begin s = s\<lparr>loading := True\<rparr>"

fun fetchTodos_resolve :: "state \<Rightarrow> response \<Rightarrow> state" where
  "fetchTodos_resolve s Rejected = s\<lparr>loading := False\<rparr>"
| "fetchTodos_resolve s (Response True d) = s\<lparr>loading := False\<rparr>"
| "fetchTodos_resolve s (Response False d) =
     (let (rs, s1) = new_objs (case d of None \<Rightarrow> [] | Some rows \<Rightarrow> rows) s;
          (a, s2) = new_array rs s1
      in s2\<lparr>todos := a, loading := False\<rparr>)"

definition resetForm :: "state \<Rightarrow> state" where
  "resetForm s = s\<lparr>newTask := [], newCategory := ''personal'', newPriority := Medium,
                   newDueDate := [], newNotes := []\<rparr>"

definition addTodo_begin :: "state \<Rightarrow> request option" where
  "addTodo_begin s =
     (if trim (newTask s) = [] then None
      else Some (Insert \<lparr>d_task = trim (newTask s), d_completed = False,
                         d_category = newCategory s, d_priority = newPriority s,
                         d_due_date = (if newDueDate s = [] then None else Some (newDueDate s)),
                         d_notes = (if trim (newNotes s) = [] then None else Some (trim (newNotes s)))\<rparr>))"

fun addTodo_resolve :: "state \<Rightarrow> response \<Rightarrow> state option" where
  \<comment> \<open>\<open>None\<close>: \<open>data\<close> is an empty array, and \<open>unshift(data[0])\<close> puts \<open>undefined\<close> in the collection\<close>
  "addTodo_resolve s Rejected = Some s"
| "addTodo_resolve s (Response True d) = Some s"
| "addTodo_resolve s (Response False None) = Some s"
| "addTodo_resolve s (Response False (Some [])) = None"
| "addTodo_resolve s (Response False (Some (row # rows))) =
     (let (r, s1) = new_obj row s in Some (resetForm (array_unshift r (todos s1) s1)))"

definition addTodo :: "response \<Rightarrow> state \<Rightarrow> state option \<times> request list" where
  "addTodo resp s =
     (case addTodo_begin s of None \<Rightarrow> (Some s, [])
      | Some rq \<Rightarrow> (addTodo_resolve s resp, [rq]))"

definition toggleTodo_begin :: "ref \<Rightarrow> state \<Rightarrow> request option" where
  "toggleTodo_begin r s = Some (UpdateCompleted (\<not> completed (objs s r)) (id' (objs s r)))"

definition toggleTodo_resolve :: "ref \<Rightarrow> state \<Rightarrow> response \<Rightarrow> state" where
  "toggleTodo_resolve r s resp =
     (if failed resp then s
      else s\<lparr>objs := (objs s)(r := (objs s r)\<lparr>completed := \<not> completed (objs s r)\<rparr>)\<rparr>)"

definition toggleTodo :: "response \<Rightarrow> ref \<Rightarrow> state \<Rightarrow> state \<times> request list" where
  "toggleTodo resp r s =
     (case toggleTodo_begin r s of None \<Rightarrow> (s, [])
      | Some rq \<Rightarrow> (toggleTodo_resolve r s resp, [rq]))"

definition deleteTodo_begin :: "int \<Rightarrow> state \<Rightarrow> request option" where
  "deleteTodo_begin i s = Some (DeleteEq i)"

definition deleteTodo_resolve :: "int \<Rightarrow> state \<Rightarrow> response \<Rightarrow> state" where
  "deleteTodo_resolve i s resp =
     (if failed resp then s
      else (let (a, s1) = array_filter (\<lambda>t. id' t \<noteq> i) (todos s) s in s1\<lparr>todos := a\<rparr>))"

definition deleteTodo :: "response \<Rightarrow> int \<Rightarrow> state \<Rightarrow> state \<times> request list" where
  "deleteTodo resp i s =
     (case deleteTodo_begin i s of None \<Rightarrow> (s, [])
      | Some rq \<Rightarrow> (deleteTodo_resolve i s resp, [rq]))"

definition startEdit :: "ref \<Rightarrow> state \<Rightarrow> state" where
  "startEdit r s = s\<lparr>editingTodo := Some (id' (objs s r)), editText := task (objs s r)\<rparr>"

definition cancelEdit :: "state \<Rightarrow> state" where
  "cancelEdit s = s\<lparr>editingTodo := None, editText := []\<rparr>"

definition saveEdit_begin :: "state \<Rightarrow> request option" where
  \<comment> \<open>\<open>!editingTodo.value\<close> holds for \<open>null\<close> and for the number 0\<close>
  "saveEdit_begin s =
     (case editingTodo s of None \<Rightarrow> None
      | Some i \<Rightarrow> if i = 0 \<or> trim (editText s) = [] then None
                  else Some (UpdateTask (trim (editText s)) i))"

definition saveEdit_resolve :: "state \<Rightarrow> response \<Rightarrow> state" where
  "saveEdit_resolve s resp =
     (if failed resp then s
      else cancelEdit
        (case find (\<lambda>r. Some (id' (objs s r)) = editingTodo s) (arrays s (todos s)) of
           None \<Rightarrow> s
         | Some r \<Rightarrow> s\<lparr>objs := (objs s)(r := (objs s r)\<lparr>task := trim (editText s)\<rparr>)\<rparr>))"

definition saveEdit :: "response \<Rightarrow> state \<Rightarrow> state \<times> request list" where
  "saveEdit resp s =
     (case saveEdit_begin s of None \<Rightarrow> (s, [])
      | Some rq \<Rightarrow> (saveEdit_resolve s resp, [rq]))"

definition clearCompleted_begin :: "state \<Rightarrow> request option" where
  "clearCompleted_begin s =
     Some (DeleteIn (map (\<lambda>r. id' (objs s r)) (filter (\<lambda>r. completed (objs s r)) (arrays s (todos s)))))"

definition clearCompleted_resolve :: "state \<Rightarrow> response \<Rightarrow> state" where
  "clearCompleted_resolve s resp =
     (if failed resp then s
      else (let (a, s1) = array_filter (\<lambda>t. \<not> completed t) (todos s) s in s1\<lparr>todos := a\<rparr>))"

definition clearCompleted :: "response \<Rightarrow> state \<Rightarrow> state \<times> request list" where
  "clearCompleted resp s =
     (case clearCompleted_begin s of None \<Rightarrow> (s, [])
      | Some rq \<Rightarrow> (clearCompleted_resolve s resp, [rq]))"

definition view :: "string \<Rightarrow> state \<Rightarrow> todo list" where
  \<comment> \<open>the tasks of \<open>filteredTodos.value\<close>, in displayed order\<close>
  "view today s = (let (a, s') = filteredTodos today s in map (objs s') (arrays s' a))"

section \<open>Example states\<close>

definition ex_t0 :: todo where
  "ex_t0 = \<lparr>id' = 0, task = ''Z'', completed = False, created_at = 5, category = ''personal'',
            priority = Medium, due_date = None, notes' = None\<rparr>"

definition ex_t1 :: todo where
  "ex_t1 = \<lparr>id' = 1, task = ''A'', completed = False, created_at = 10, category = ''personal'',
            priority = Low, due_date = Some ''2025-06-12'', notes' = None\<rparr>"

definition ex_t2 :: todo where
  "ex_t2 = \<lparr>id' = 2, task = ''B'', completed = True, created_at = 20, category = ''work'',
            priority = High, due_date = Some ''2025-06-20'', notes' = Some ''Call Mom''\<rparr>"

definition ok :: response where
  "ok = Response False None"

definition loaded :: state where
  \<comment> \<open>after the initial fetch returned two rows\<close>
  "loaded = fetchTodos_resolve (fetchTodos_begin initial) (Response False (Some [ex_t1, ex_t2]))"

definition editing :: state where
  \<comment> \<open>the user edits the first task of \<open>loaded\<close>\<close>
  "editing = startEdit 0 loaded"

definition editing_deleted :: state where
  \<comment> \<open>a task with id 0 is put in edit mode and then deleted\<close>
  "editing_deleted =
     deleteTodo_resolve 0
       (startEdit 0 (fetchTodos_resolve (fetchTodos_begin initial) (Response False (Some [ex_t0])))) ok"

definition blank_form :: state where
  \<comment> \<open>white space typed in the new-task field and in the edit field\<close>
  "blank_form = editing\<lparr>newTask := ''   '', editText := ''  ''\<rparr>"

definition filled :: state where
  \<comment> \<open>as \<open>editing\<close>, with a title typed in the new-task field\<close>
  "filled = editing\<lparr>newTask := '' Buy milk ''\<rparr>"


definition editing_gone :: state where
  \<comment> \<open>the task being edited is deleted while in edit mode\<close>
  "editing_gone = deleteTodo_resolve 1 editing ok"



definition toggled_back :: state where
  \<comment> \<open>both tasks of \<open>loaded\<close> toggled: the second back to pending, the first to completed\<close>
  "toggled_back = toggleTodo_resolve 0 (toggleTodo_resolve 1 loaded ok) ok"

definition rows :: "nat \<Rightarrow> nat \<Rightarrow> todo list" where
  \<comment> \<open>\<open>n\<close> rows, the first \<open>c\<close> of them completed\<close>
  "rows c n = map (\<lambda>k. ex_t1\<lparr>id' := int k + 1, completed := (k < c)\<rparr>) [0..<n]"

definition progress :: "nat \<Rightarrow> nat \<Rightarrow> state" where
  \<comment> \<open>after the initial fetch returned \<open>rows c n\<close>\<close>
  "progress c n = fetchTodos_resolve (fetchTodos_begin initial) (Response False (Some (rows c n)))"

section \<open>Derived notions\<close>

definition before :: "todo \<Rightarrow> todo \<Rightarrow> bool" where
  \<comment> \<open>the displayed order: the higher priority first, then the newer first\<close>
  "before a b \<longleftrightarrow>
     priorityOrder (priority b) < priorityOrder (priority a) \<or>
     priorityOrder (priority a) = priorityOrder (priority b) \<and> created_at b \<le> created_at a"

definition shown :: "string \<Rightarrow> state \<Rightarrow> todo \<Rightarrow> bool" where
  \<comment> \<open>the filters that \<open>filteredTodos\<close> applies in a state, as one predicate\<close>
  "shown today s t \<longleftrightarrow>
     (searchQuery s = [] \<or> matchesSearch (searchQuery s) t) \<and>
     (if selectedFilter s = ''pending'' then \<not> completed t
      else if selectedFilter s = ''completed'' then completed t
      else if selectedFilter s = ''overdue'' then isOverdue today t else True) \<and>
     (selectedCategory s = ''all'' \<or> category t = selectedCategory s) \<and>
     (selectedPriority s = ''all'' \<or> priority_str (priority t) = selectedPriority s)"

section \<open>Auxiliary facts\<close>



lemma find_none:
  "\<forall>x\<in>set xs. \<not> P x \<Longrightarrow> find P xs = None"
  by (induction xs) auto

lemmas ex_defs = loaded_def editing_def editing_deleted_def blank_form_def initial_def ok_def
  ex_t0_def ex_t1_def ex_t2_def fetchTodos_begin_def new_obj_def new_array_def array_filter_def
  startEdit_def

lemma loaded_simps:
  "arrays loaded (todos loaded) = [0, 1]" "objs loaded 0 = ex_t1" "objs loaded (Suc 0) = ex_t2"
  by (simp_all add: ex_defs)

lemma editing_simps:
  "editingTodo editing = Some 1" "editText editing = ''A''"
  "arrays editing (todos editing) = [0, 1]" "objs editing 0 = ex_t1" "objs editing (Suc 0) = ex_t2"
  by (simp_all add: ex_defs)

lemma trim_A: "trim ''A'' = ''A''" "trim ''Z'' = ''Z''" "trim ''   '' = []" "trim ''  '' = []"
  by (simp_all add: trim_def is_ws_def)

lemma filled_simps:
  "editingTodo filled = Some 1" "editText filled = ''A''" "newTask filled = '' Buy milk ''"
  "newCategory filled = ''personal''" "newPriority filled = Medium" "newDueDate filled = []"
  "newNotes filled = []"
  "arrays filled (todos filled) = [0, 1]" "objs filled 0 = ex_t1" "objs filled (Suc 0) = ex_t2"
  by (simp_all add: filled_def ex_defs)

lemma trim_milk: "trim '' Buy milk '' = ''Buy milk''" "trim [] = []"
  by (simp_all add: trim_def is_ws_def)

lemma blank_form_simps:
  "newTask blank_form = ''   ''" "editText blank_form = ''  ''" "editingTodo blank_form = Some 1"
  by (simp_all add: blank_form_def editing_simps)



lemma editing_deleted_simps:
  "editingTodo editing_deleted = Some 0" "editText editing_deleted = ''Z''"
  "arrays editing_deleted (todos editing_deleted) = []"
  by (simp_all add: ex_defs deleteTodo_resolve_def)

lemma editing_gone_simps:
  "editingTodo editing_gone = Some 1" "editText editing_gone = ''A''"
  "arrays editing_gone (todos editing_gone) = [1]" "objs editing_gone (Suc 0) = ex_t2"
  by (simp_all add: editing_gone_def ex_defs deleteTodo_resolve_def)

lemma set_insort_cmp: "set (insort_cmp cmp x xs) = insert x (set xs)"
  by (induction xs) auto


lemma length_insort_cmp: "length (insort_cmp cmp x xs) = Suc (length xs)"
  by (induction xs) auto

lemma length_sort_cmp: "length (sort_cmp cmp xs) = length xs"
  by (induction xs) (simp_all add: sort_cmp_def length_insort_cmp)

lemma compareTodos_le: "compareTodos a b \<le> 0 \<longleftrightarrow> before a b"
  by (auto simp: compareTodos_def before_def)

lemma before_total: "\<not> before a b \<Longrightarrow> before b a"
  by (auto simp: before_def)

lemma before_trans: "before a b \<Longrightarrow> before b c \<Longrightarrow> before a c"
  by (auto simp: before_def)

lemma sorted_insort_cmp:
  assumes "sorted_wrt (\<lambda>x y. before (f x) (f y)) xs"
  shows "sorted_wrt (\<lambda>x y. before (f x) (f y)) (insort_cmp (\<lambda>x y. compareTodos (f x) (f y)) a xs)"
  using assms
proof (induction xs)
  case Nil
  then show ?case by simp
next
  case (Cons y ys)
  show ?case
  proof (cases "before (f a) (f y)")
    case True
    then have "\<forall>z\<in>set ys. before (f a) (f z)"
      using Cons.prems before_trans by auto
    with True Cons.prems show ?thesis
      by (simp add: compareTodos_le)
  next
    case False
    then have "before (f y) (f a)" by (rule before_total)
    with False Cons show ?thesis
      by (auto simp: compareTodos_le set_insort_cmp)
  qed
qed

lemma sorted_sort_cmp:
  "sorted_wrt (\<lambda>x y. before (f x) (f y)) (sort_cmp (\<lambda>x y. compareTodos (f x) (f y)) xs)"
  by (induction xs) (simp_all add: sort_cmp_def sorted_insort_cmp)

lemma view_eq:
  "view today s =
     map (objs s) (sort_cmp (\<lambda>x y. compareTodos (objs s x) (objs s y))
       (filter (\<lambda>r. shown today s (objs s r)) (arrays s (todos s))))"
  unfolding view_def filteredTodos_def array_filter_def new_array_def array_sort_def shown_def
  by (simp add: Let_def conj_commute conj_left_commute cong: conj_cong)






lemma filteredTodos_frame:
  "objs (snd (filteredTodos today s)) = objs s \<and> todos (snd (filteredTodos today s)) = todos s"
  unfolding filteredTodos_def array_filter_def new_array_def array_sort_def
  by (simp add: Let_def)

lemma filteredTodos_fresh:
  assumes "todos s < next_addr s"
    and "searchQuery s \<noteq> [] \<or> selectedFilter s = ''pending'' \<or> selectedFilter s = ''completed'' \<or>
         selectedFilter s = ''overdue'' \<or> selectedCategory s \<noteq> ''all'' \<or> selectedPriority s \<noteq> ''all''"
  shows "fst (filteredTodos today s) \<noteq> todos s \<and>
         arrays (snd (filteredTodos today s)) (todos s) = arrays s (todos s)"
  using assms
  unfolding filteredTodos_def array_filter_def new_array_def array_sort_def
  by (auto simp: Let_def)

lemma filteredTodos_aliased:
  assumes "searchQuery s = []" "selectedFilter s \<noteq> ''pending''" "selectedFilter s \<noteq> ''completed''"
    "selectedFilter s \<noteq> ''overdue''" "selectedCategory s = ''all''" "selectedPriority s = ''all''"
  shows "filteredTodos today s = array_sort compareTodos (todos s) s"
  using assms unfolding filteredTodos_def by simp

lemma clearCompleted_sequential:
  assumes "distinct (map id' (collection s))" and "\<not> failed resp"
    and "clearCompleted_begin s = Some (DeleteIn S)"
  shows "collection (fst (clearCompleted resp s)) = filter (\<lambda>t. id' t \<notin> set S) (collection s)"
proof -
  let ?arr = "arrays s (todos s)"
  have S: "S = map (\<lambda>r. id' (objs s r)) (filter (\<lambda>r. completed (objs s r)) ?arr)"
    using assms(3) by (simp add: clearCompleted_begin_def)
  have inj: "inj_on (\<lambda>r. id' (objs s r)) (set ?arr)"
    using assms(1) by (simp add: collection_def distinct_map comp_def inj_on_def)
  have "\<And>r. r \<in> set ?arr \<Longrightarrow> id' (objs s r) \<notin> set S \<longleftrightarrow> \<not> completed (objs s r)"
    using inj unfolding S by (auto simp: inj_on_def)
  then have "filter (\<lambda>r. \<not> completed (objs s r)) ?arr = filter (\<lambda>r. id' (objs s r) \<notin> set S) ?arr"
    by (intro filter_cong) auto
  then show ?thesis
    using assms(2)
    by (simp add: clearCompleted_def clearCompleted_begin_def clearCompleted_resolve_def
        array_filter_def new_array_def collection_def filter_map comp_def)
qed

declare pow2_floor.simps [simp del]

lemma pow2_floor_bounds:
  "0 < x \<Longrightarrow> 0 < pow2_floor x \<and> pow2_floor x \<le> x \<and> x < 2 * pow2_floor x"
proof (induction x rule: pow2_floor.induct)
  case (1 x)
  consider "2 \<le> x" | "x < 1" | "1 \<le> x" "x < 2"
    by linarith
  then show ?case
  proof cases
    case 1
    then have e: "pow2_floor x = 2 * pow2_floor (x / 2)"
      using "1.prems" by (subst pow2_floor.simps) simp
    have "0 < pow2_floor (x / 2) \<and> pow2_floor (x / 2) \<le> x / 2 \<and> x / 2 < 2 * pow2_floor (x / 2)"
      using "1.IH"(1) 1 "1.prems" by simp
    then show ?thesis
      unfolding e by linarith
  next
    case 2
    then have e: "pow2_floor x = pow2_floor (2 * x) / 2"
      using "1.prems" by (subst pow2_floor.simps) simp
    have "0 < pow2_floor (2 * x) \<and> pow2_floor (2 * x) \<le> 2 * x \<and> 2 * x < 2 * pow2_floor (2 * x)"
      using "1.IH"(2) 2 "1.prems" by simp
    then show ?thesis
      unfolding e by linarith
  next
    case 3
    then have "pow2_floor x = 1"
      using "1.prems" by (subst pow2_floor.simps) simp
    with 3 show ?thesis by simp
  qed
qed

lemma pow2_floor_power: "\<exists>k::int. pow2_floor x = 2 powi k"
proof (induction x rule: pow2_floor.induct)
  case (1 x)
  consider "x \<le> 0" | "0 < x" "2 \<le> x" | "0 < x" "x < 1" | "1 \<le> x" "x < 2"
    by linarith
  then show ?case
  proof cases
    case 1
    then have "pow2_floor x = 2 powi 0"
      by (subst pow2_floor.simps) simp
    then show ?thesis ..
  next
    case 2
    then have e: "pow2_floor x = 2 * pow2_floor (x / 2)"
      by (subst pow2_floor.simps) simp
    from "1.IH"(1) 2 obtain k :: int where "pow2_floor (x / 2) = 2 powi k"
      by auto
    with e have "pow2_floor x = 2 powi (k + 1)"
      by (simp add: power_int_add_1')
    then show ?thesis ..
  next
    case 3
    then have e: "pow2_floor x = pow2_floor (2 * x) / 2"
      by (subst pow2_floor.simps) simp
    from "1.IH"(2) 3 obtain k :: int where "pow2_floor (2 * x) = 2 powi k"
      by auto
    with e have "pow2_floor x = 2 powi (k - 1)"
      by (simp add: power_int_diff)
    then show ?thesis ..
  next
    case 4
    then have "pow2_floor x = 2 powi 0"
      by (subst pow2_floor.simps) simp
    then show ?thesis ..
  qed
qed

lemma pow2_gap:
  fixes p q :: rat
  assumes "p = 2 powi j" "q = 2 powi k" "p < 2 * q" "p \<noteq> q"
  shows "2 * p \<le> q"
proof -
  have "\<not> k + 1 \<le> j"
  proof
    assume "k + 1 \<le> j"
    then have "(2::rat) powi (k + 1) \<le> 2 powi j"
      by (intro power_int_increasing) simp_all
    with assms show False
      by (simp add: power_int_add_1')
  qed
  moreover have "j \<noteq> k" using assms by auto
  ultimately have "j + 1 \<le> k" by linarith
  then have "(2::rat) powi (j + 1) \<le> 2 powi k"
    by (intro power_int_increasing) simp_all
  with assms show ?thesis
    by (simp add: power_int_add_1')
qed

lemma round_even_cases: "round_even x = \<lfloor>x\<rfloor> \<or> round_even x = \<lfloor>x\<rfloor> + 1"
  by (simp add: round_even_def Let_def)

lemma round_even_error: "\<bar>of_int (round_even x) - x\<bar> \<le> 1 / 2"
proof -
  have "of_int \<lfloor>x\<rfloor> \<le> x" "x < of_int \<lfloor>x\<rfloor> + 1"
    by linarith+
  then show ?thesis
    by (auto simp: round_even_def Let_def)
qed

lemma round_even_of_int: "round_even (of_int n) = n"
  by (simp add: round_even_def)

lemma round_even_mono:
  assumes "x \<le> y"
  shows "round_even x \<le> round_even y"
proof (cases "\<lfloor>x\<rfloor> = \<lfloor>y\<rfloor>")
  case True
  with assms show ?thesis
    by (auto simp: round_even_def Let_def)
next
  case False
  moreover have "\<lfloor>x\<rfloor> \<le> \<lfloor>y\<rfloor>" using assms by (rule floor_mono)
  ultimately have "\<lfloor>x\<rfloor> + 1 \<le> \<lfloor>y\<rfloor>" by simp
  then show ?thesis
    using round_even_cases [of x] round_even_cases [of y] by linarith
qed

lemma to_double_pos:
  assumes "0 < x"
  shows "to_double x = of_int (round_even (x / (pow2_floor x / 2 ^ 52))) * (pow2_floor x / 2 ^ 52)"
  using assms by (simp add: to_double_def Let_def)

lemma to_double_range:
  assumes "0 < x"
  shows "pow2_floor x \<le> to_double x \<and> to_double x \<le> 2 * pow2_floor x"
proof -
  define p where "p = pow2_floor x"
  define u where "u = p / 2 ^ 52"
  have p: "0 < p" "p \<le> x" "x < 2 * p"
    using pow2_floor_bounds [OF assms] by (simp_all add: p_def)
  have u: "0 < u" "p = 2 ^ 52 * u"
    using p by (simp_all add: u_def)
  have "2 ^ 52 * u \<le> x" "x \<le> 2 ^ 53 * u"
    using p u by simp_all
  then have b: "of_int (2 ^ 52) \<le> x / u" "x / u \<le> of_int (2 ^ 53)"
    using u(1) by (simp_all add: pos_le_divide_eq pos_divide_le_eq)
  have "round_even (of_int (2 ^ 52)) \<le> round_even (x / u)"
    "round_even (x / u) \<le> round_even (of_int (2 ^ 53))"
    using b by (simp_all only: round_even_mono)
  then have m: "2 ^ 52 \<le> round_even (x / u)" "round_even (x / u) \<le> 2 ^ 53"
    unfolding round_even_of_int by simp_all
  have "(2 ^ 52 :: rat) \<le> of_int (round_even (x / u))" "of_int (round_even (x / u)) \<le> (2 ^ 53 :: rat)"
    using m by (simp_all flip: of_int_le_iff)
  then have "2 ^ 52 * u \<le> of_int (round_even (x / u)) * u" "of_int (round_even (x / u)) * u \<le> 2 ^ 53 * u"
    using u(1) by (simp_all add: mult_right_mono)
  moreover have "to_double x = of_int (round_even (x / u)) * u"
    using to_double_pos [OF assms] by (simp add: u_def p_def)
  ultimately show ?thesis
    using u(2) unfolding p_def [symmetric] by simp
qed

lemma to_double_error:
  assumes "0 < x"
  shows "\<bar>to_double x - x\<bar> \<le> x / 2 ^ 53"
proof -
  define p where "p = pow2_floor x"
  define u where "u = p / 2 ^ 52"
  have p: "0 < p" "p \<le> x"
    using pow2_floor_bounds [OF assms] by (simp_all add: p_def)
  have u: "0 < u" using p by (simp add: u_def)
  have td: "to_double x = of_int (round_even (x / u)) * u"
    using to_double_pos [OF assms] by (simp add: u_def p_def)
  have "to_double x - x = (of_int (round_even (x / u)) - x / u) * u"
    using u unfolding td by (simp add: algebra_simps)
  then have "\<bar>to_double x - x\<bar> = \<bar>of_int (round_even (x / u)) - x / u\<bar> * u"
    using u by (simp add: abs_mult)
  also have "\<dots> \<le> 1 / 2 * u"
    using u round_even_error [of "x / u"] by (intro mult_right_mono) simp_all
  also have "\<dots> = p / 2 ^ 53"
    by (simp add: u_def)
  also have "\<dots> \<le> x / 2 ^ 53"
    using p by (simp add: divide_right_mono)
  finally show ?thesis .
qed

lemma to_double_mono:
  assumes "0 \<le> x" "x \<le> y"
  shows "to_double x \<le> to_double y"
proof (cases "x = 0")
  case True
  show ?thesis
  proof (cases "y = 0")
    case True
    with \<open>x = 0\<close> show ?thesis by simp
  next
    case False
    with assms True have "0 < y" by simp
    then have "0 < pow2_floor y" "pow2_floor y \<le> to_double y"
      using pow2_floor_bounds to_double_range by simp_all
    with True show ?thesis by (simp add: to_double_def)
  qed
next
  case False
  with assms have x: "0 < x" and y: "0 < y" by simp_all
  note px = pow2_floor_bounds [OF x] and py = pow2_floor_bounds [OF y]
  show ?thesis
  proof (cases "pow2_floor x = pow2_floor y")
    case True
    define u where "u = pow2_floor y / 2 ^ 52"
    have u: "0 < u" using py by (simp add: u_def)
    then have "x / u \<le> y / u" using assms by (simp add: divide_right_mono)
    then have "round_even (x / u) \<le> round_even (y / u)" by (rule round_even_mono)
    then have "(of_int (round_even (x / u)) :: rat) \<le> of_int (round_even (y / u))" by simp
    then have "of_int (round_even (x / u)) * u \<le> of_int (round_even (y / u)) * u"
      using u by (intro mult_right_mono) simp_all
    then show ?thesis
      unfolding to_double_pos [OF x] to_double_pos [OF y] True u_def .
  next
    case False
    obtain j k :: int where "pow2_floor x = 2 powi j" "pow2_floor y = 2 powi k"
      using pow2_floor_power by blast
    moreover have "pow2_floor x < 2 * pow2_floor y"
      using px py assms by linarith
    ultimately have "2 * pow2_floor x \<le> pow2_floor y"
      using False by (intro pow2_gap)
    then show ?thesis
      using to_double_range [OF x] to_double_range [OF y] by linarith
  qed
qed

lemma mathRound_mono: "x \<le> y \<Longrightarrow> mathRound x \<le> mathRound y"
  by (simp add: mathRound_def floor_mono)

lemma completionPercentage_collection:
  "completionPercentage s =
     (if length (collection s) = 0 then 0
      else mathRound (to_double (to_double
             (of_nat (length (filter completed (collection s))) / of_nat (length (collection s))) * 100)))"
  by (simp add: completionPercentage_def collection_def filter_map comp_def Let_def)

lemma percentage_mono:
  assumes "c \<le> c'"
  shows "mathRound (to_double (to_double (of_nat c / of_nat n) * 100))
       \<le> mathRound (to_double (to_double (of_nat c' / of_nat n) * 100))"
proof -
  have "(of_nat c :: rat) / of_nat n \<le> of_nat c' / of_nat n"
    using assms by (simp add: divide_right_mono)
  then have 1: "to_double (of_nat c / of_nat n) \<le> to_double (of_nat c' / of_nat n)"
    by (intro to_double_mono) simp_all
  have "to_double 0 \<le> to_double (of_nat c / of_nat n)"
    by (intro to_double_mono) simp_all
  then have 0: "0 \<le> to_double (of_nat c / of_nat n)"
    by (simp add: to_double_def)
  have "to_double (to_double (of_nat c / of_nat n) * 100)
      \<le> to_double (to_double (of_nat c' / of_nat n) * 100)"
    using 0 1 by (intro to_double_mono) simp_all
  then show ?thesis
    by (rule mathRound_mono)
qed

lemma percentage_close:
  assumes "0 < n" "c \<le> n"
  shows "\<bar>to_double (to_double (of_nat c / of_nat n) * 100) - 100 * of_nat c / of_nat n\<bar>
       \<le> 201 / 2 ^ 53"
proof (cases "c = 0")
  case True
  then show ?thesis by (simp add: to_double_def)
next
  case False
  define a :: rat where "a = of_nat c / of_nat n"
  define x1 where "x1 = to_double a"
  have a: "0 < a" "a \<le> 1"
    using assms False by (simp_all add: a_def)
  have e1: "\<bar>x1 - a\<bar> \<le> a / 2 ^ 53"
    unfolding x1_def using a(1) by (rule to_double_error)
  also have "\<dots> \<le> 1 / 2 ^ 53"
    using a(2) by (simp add: divide_right_mono)
  finally have e1': "\<bar>x1 - a\<bar> \<le> 1 / 2 ^ 53" .
  have "0 < pow2_floor a" "pow2_floor a \<le> x1"
    using pow2_floor_bounds [OF a(1)] to_double_range [OF a(1)] by (simp_all add: x1_def)
  then have x1: "0 < x1" by simp
  then have y2: "0 < x1 * 100" by simp
  have "x1 \<le> 1 + 1 / 2 ^ 53"
    using e1' a(2) by linarith
  then have "x1 * 100 \<le> 101"
    by simp
  then have "x1 * 100 / 2 ^ 53 \<le> 101 / 2 ^ 53"
    by (simp add: divide_right_mono)
  with to_double_error [OF y2] have e2: "\<bar>to_double (x1 * 100) - x1 * 100\<bar> \<le> 101 / 2 ^ 53"
    by linarith
  have "x1 * 100 - 100 * a = 100 * (x1 - a)"
    by (simp add: algebra_simps)
  then have "\<bar>x1 * 100 - 100 * a\<bar> = 100 * \<bar>x1 - a\<bar>"
    by (simp only: abs_mult abs_numeral)
  with e1' have e3: "\<bar>x1 * 100 - 100 * a\<bar> \<le> 100 / 2 ^ 53"
    by simp
  have "\<bar>to_double (x1 * 100) - 100 * a\<bar> \<le> 201 / 2 ^ 53"
    using e2 e3 by linarith
  then show ?thesis
    by (simp add: x1_def a_def)
qed

lemma frac_half_gap:
  fixes y :: rat
  assumes "0 < n" "y = 100 * of_nat c / of_nat n" "frac y \<noteq> 1 / 2"
  shows "1 / (2 * of_nat n) \<le> \<bar>frac y - 1 / 2\<bar>"
proof -
  define k :: int where "k = 200 * int c - 2 * int n * \<lfloor>y\<rfloor> - int n"
  have n: "(0::rat) < of_nat n" using assms by simp
  have "(frac y - 1 / 2) * (2 * of_nat n) = 2 * (y * of_nat n) - 2 * of_nat n * of_int \<lfloor>y\<rfloor> - of_nat n"
    by (simp add: frac_def algebra_simps)
  also have "y * of_nat n = 100 * of_nat c"
    using n assms(2) by simp
  finally have e: "(frac y - 1 / 2) * (2 * of_nat n) = of_int k"
    by (simp add: k_def)
  have "k \<noteq> 0"
  proof
    assume "k = 0"
    with e n have "frac y - 1 / 2 = 0" by simp
    with assms(3) show False by simp
  qed
  then have "1 \<le> \<bar>k\<bar>" by simp
  then have "(1::rat) \<le> \<bar>of_int k\<bar>" by (simp flip: of_int_abs)
  also have "\<dots> = \<bar>frac y - 1 / 2\<bar> * (2 * of_nat n)"
    using n unfolding e [symmetric] by (simp add: abs_mult)
  finally show ?thesis
    using n by (simp add: pos_divide_le_eq)
qed

lemma floor_between:
  fixes t :: rat
  assumes "of_int q \<le> t" "t < of_int q + 1"
  shows "\<lfloor>t\<rfloor> = q"
  using assms by (intro floor_unique)

lemma mathRound_near:
  fixes x y :: rat
  assumes "0 < n" "n < 2 ^ 32" "y = 100 * of_nat c / of_nat n" "\<bar>x - y\<bar> \<le> 201 / 2 ^ 53"
  shows "(frac y \<noteq> 1 / 2 \<longrightarrow> mathRound x = round y) \<and>
         (frac y = 1 / 2 \<longrightarrow> mathRound x = round y \<or> mathRound x = round y - 1)"
proof -
  define e :: rat where "e = 201 / 2 ^ 53"
  define f where "f = frac y"
  define q where "q = \<lfloor>y\<rfloor>"
  have "(of_nat n :: rat) < of_nat (2 ^ 32)"
    using assms(2) by (simp only: of_nat_less_iff)
  then have "2 * (of_nat n :: rat) < 2 ^ 33" by simp
  moreover have n: "(0::rat) < of_nat n" using assms(1) by simp
  ultimately have "1 / 2 ^ 33 < 1 / (2 * (of_nat n :: rat))"
    by (intro divide_strict_left_mono) simp_all
  moreover have "e < 1 / 2 ^ 33" by (simp add: e_def)
  ultimately have eps: "e < 1 / (2 * (of_nat n :: rat))" by linarith
  have e: "0 \<le> e" "e < 1 / 2" by (simp_all add: e_def)
  have y: "y = of_int q + f" by (simp add: frac_def f_def q_def)
  have f: "0 \<le> f" "f < 1" by (simp_all add: frac_lt_1 f_def)
  have "\<bar>x - y\<bar> \<le> e" using assms(4) by (simp add: e_def)
  then have x: "y - e \<le> x" "x \<le> y + e" by linarith+
  have q1: "(of_int (q + 1) :: rat) = of_int q + 1" by simp
  show ?thesis
  proof (intro conjI impI)
    assume "frac y \<noteq> 1 / 2"
    from frac_half_gap [OF assms(1) assms(3) this] eps
    have gap: "e < \<bar>f - 1 / 2\<bar>" unfolding f_def by linarith
    show "mathRound x = round y"
    proof (cases "f < 1 / 2")
      case True
      with gap have g: "f + e < 1 / 2" by linarith
      have "\<lfloor>y + 1 / 2\<rfloor> = q"
        using True f y by (intro floor_between) linarith+
      moreover have "\<lfloor>x + 1 / 2\<rfloor> = q"
        using g f y x e by (intro floor_between) linarith+
      ultimately show ?thesis by (simp add: mathRound_def round_def)
    next
      case False
      with gap have g: "1 / 2 + e < f" by linarith
      have "\<lfloor>y + 1 / 2\<rfloor> = q + 1"
        using False f y unfolding q1 [symmetric]
        by (intro floor_between) (unfold q1, linarith+)
      moreover have "\<lfloor>x + 1 / 2\<rfloor> = q + 1"
        using g f y x e by (intro floor_between) (unfold q1, linarith+)
      ultimately show ?thesis by (simp add: mathRound_def round_def)
    qed
  next
    assume "frac y = 1 / 2"
    then have h: "f = 1 / 2" by (simp add: f_def)
    have r: "\<lfloor>y + 1 / 2\<rfloor> = q + 1"
      using h y by (intro floor_between) (unfold q1, linarith+)
    have "of_int q \<le> x + 1 / 2" "x + 1 / 2 < of_int (q + 2)"
      using h y x e by simp_all
    then have "q \<le> \<lfloor>x + 1 / 2\<rfloor>" "\<lfloor>x + 1 / 2\<rfloor> < q + 2"
      by (simp_all only: le_floor_iff floor_less_iff)
    then show "mathRound x = round y \<or> mathRound x = round y - 1"
      unfolding mathRound_def round_def r by linarith
  qed
qed

lemma new_objs_props:
  "new_objs xs s = (rs, s') \<Longrightarrow>
     map (objs s') rs = xs \<and> (\<forall>r<next_ref s. objs s' r = objs s r) \<and>
     next_ref s \<le> next_ref s' \<and> arrays s' = arrays s \<and> next_addr s' = next_addr s"
proof (induction xs arbitrary: s rs s')
  case Nil
  then show ?case by simp
next
  case (Cons x xs)
  obtain rs2 s2 where n: "new_objs xs (snd (new_obj x s)) = (rs2, s2)"
    by (cases "new_objs xs (snd (new_obj x s))")
  with Cons.prems have e: "rs = next_ref s # rs2" "s' = s2"
    by (simp_all add: new_obj_def split_def Let_def)
  from Cons.IH [OF n] show ?case
    unfolding e by (simp add: new_obj_def)
qed

lemma collection_fetched:
  "collection (fetchTodos_resolve s (Response False (Some xs))) = xs"
proof -
  obtain rs s1 where n: "new_objs xs s = (rs, s1)"
    by (cases "new_objs xs s")
  from new_objs_props [OF n] show ?thesis
    by (simp add: n collection_def new_array_def)
qed

lemma length_filter_less: "c \<le> n \<Longrightarrow> length (filter (\<lambda>k. k < c) [0..<n]) = c"
  by (induction n) (auto simp: le_Suc_eq)

lemma collection_progress:
  "collection (progress c n) = rows c n"
  unfolding progress_def by (rule collection_fetched)

lemma rows_counts:
  "length (rows c n) = n" "c \<le> n \<Longrightarrow> length (filter completed (rows c n)) = c"
  by (simp_all add: rows_def filter_map comp_def length_filter_less)

lemma completionPercentage_progress:
  assumes "c \<le> n" "0 < n"
  shows "completionPercentage (progress c n) =
           mathRound (to_double (to_double (of_nat c / of_nat n) * 100))"
  using assms by (simp add: completionPercentage_collection collection_progress rows_counts)

lemma percentage_23_40: "mathRound (to_double (to_double (23 / 40) * 100)) = 57"
  by code_simp

lemma round_23_40: "round (100 * 23 / 40 :: rat) = 58"
  by (simp add: round_def)

lemma length_filter_mono:
  "(\<And>x. x \<in> set xs \<Longrightarrow> P x \<Longrightarrow> Q x) \<Longrightarrow> length (filter P xs) \<le> length (filter Q xs)"
  by (induction xs) auto

lemma toggle_counts:
  assumes "\<not> completed (objs s r)"
  shows "length (collection (toggleTodo_resolve r s ok)) = length (collection s)"
    and "length (filter completed (collection s))
       \<le> length (filter completed (collection (toggleTodo_resolve r s ok)))"
proof -
  let ?s' = "toggleTodo_resolve r s ok"
  have o: "objs ?s' = (objs s)(r := (objs s r)\<lparr>completed := True\<rparr>)" "arrays ?s' = arrays s"
    "todos ?s' = todos s"
    using assms by (simp_all add: toggleTodo_resolve_def ok_def)
  show "length (collection ?s') = length (collection s)"
    by (simp add: collection_def o)
  show "length (filter completed (collection s)) \<le> length (filter completed (collection ?s'))"
    unfolding collection_def o filter_map length_map comp_def
    by (rule length_filter_mono) simp
qed


section \<open>Mutation intents\<close>

text \<open>
  Claim C7. For each of the five mutation intents (create, toggle, rename, delete, bulk-delete),
  when the round trip fails (the response carries an error, or the promise rejects), the handler
  leaves the state, and so the local task collection, exactly as it was when the intent was issued.
\<close>

theorem failure_is_noop:
  assumes "failed resp"
  shows "fst (addTodo resp s) = Some s \<and> fst (toggleTodo resp r s) = s \<and>
         fst (saveEdit resp s) = s \<and> fst (deleteTodo resp i s) = s \<and>
         fst (clearCompleted resp s) = s"
proof -
  have "addTodo_resolve s resp = Some s"
    using assms by (cases resp) simp_all
  then have "fst (addTodo resp s) = Some s"
    by (simp add: addTodo_def split: option.splits)
  moreover have "fst (toggleTodo resp r s) = s"
    using assms by (simp add: toggleTodo_def toggleTodo_begin_def toggleTodo_resolve_def)
  moreover have "fst (saveEdit resp s) = s"
    using assms by (simp add: saveEdit_def saveEdit_resolve_def split: option.splits)
  moreover have "fst (deleteTodo resp i s) = s"
    using assms by (simp add: deleteTodo_def deleteTodo_begin_def deleteTodo_resolve_def)
  moreover have "fst (clearCompleted resp s) = s"
    using assms by (simp add: clearCompleted_def clearCompleted_begin_def clearCompleted_resolve_def)
  ultimately show ?thesis by simp
qed

theorem failure_is_noop_witness:
  "failed (Response True None) \<and>
   addTodo (Response True None) filled =
     (Some filled,
      [Insert \<lparr>d_task = ''Buy milk'', d_completed = False, d_category = ''personal'',
               d_priority = Medium, d_due_date = None, d_notes = None\<rparr>]) \<and>
   toggleTodo (Response True None) 0 filled = (filled, [UpdateCompleted True 1]) \<and>
   saveEdit (Response True None) filled = (filled, [UpdateTask ''A'' 1]) \<and>
   deleteTodo (Response True None) 2 filled = (filled, [DeleteEq 2]) \<and>
   clearCompleted (Response True None) filled = (filled, [DeleteIn [2]])"
proof -
  have f: "failed (Response True None)" by simp
  have 1: "snd (addTodo (Response True None) filled) =
      [Insert \<lparr>d_task = ''Buy milk'', d_completed = False, d_category = ''personal'',
               d_priority = Medium, d_due_date = None, d_notes = None\<rparr>]"
    by (simp add: addTodo_def addTodo_begin_def filled_simps trim_milk)
  have 2: "snd (toggleTodo (Response True None) 0 filled) = [UpdateCompleted True 1]"
    by (simp add: toggleTodo_def toggleTodo_begin_def filled_simps) (simp add: ex_t1_def)
  have 3: "snd (saveEdit (Response True None) filled) = [UpdateTask ''A'' 1]"
    by (simp add: saveEdit_def saveEdit_begin_def filled_simps trim_A)
  have 4: "snd (deleteTodo (Response True None) 2 filled) = [DeleteEq 2]"
    by (simp add: deleteTodo_def deleteTodo_begin_def)
  have 5: "snd (clearCompleted (Response True None) filled) = [DeleteIn [2]]"
    by (simp add: clearCompleted_def clearCompleted_begin_def filled_simps) (simp add: ex_t1_def ex_t2_def)
  show ?thesis
    using failure_is_noop [OF f, where s = filled and r = 0 and i = 2] 1 2 3 4 5
    by (simp add: prod_eq_iff)
qed

text \<open>
  Claim C8. When the title is empty after trimming (white space only included), \<open>addTodo\<close> sends
  no request and leaves the state unchanged; when the draft title is empty after trimming,
  \<open>saveEdit\<close> sends no request and leaves the state, and so every task's title, unchanged.
\<close>

theorem empty_title_no_round_trip:
  "(trim (newTask s) = [] \<longrightarrow> addTodo resp s = (Some s, [])) \<and>
   (trim (editText s) = [] \<longrightarrow> saveEdit resp s = (s, []))"
  by (simp add: addTodo_def addTodo_begin_def saveEdit_def saveEdit_begin_def split: option.splits)

theorem empty_title_no_round_trip_witness:
  "trim (newTask blank_form) = [] \<and> addTodo ok blank_form = (Some blank_form, []) \<and>
   trim (editText blank_form) = [] \<and> saveEdit ok blank_form = (blank_form, []) \<and>
   editingTodo blank_form = Some 1"
  using empty_title_no_round_trip [of blank_form ok]
  by (simp add: blank_form_simps trim_A)



text \<open>
  Claim C4, amended. In a state that edits a task with a non-zero id and a draft that is not empty
  after trimming, \<open>saveEdit\<close> sends the rename request; when the round trip succeeds the edit
  state becomes idle (no task edited, draft empty), and when it fails the state stays as it was,
  still editing the same task with the same draft.
\<close>

theorem save_idle_on_success_only:
  assumes "editingTodo s = Some i" and "i \<noteq> 0" and "trim (editText s) \<noteq> []"
  shows "saveEdit resp s =
           ((if failed resp then s else saveEdit_resolve s resp), [UpdateTask (trim (editText s)) i]) \<and>
         (\<not> failed resp \<longrightarrow> editingTodo (saveEdit_resolve s resp) = None \<and>
                               editText (saveEdit_resolve s resp) = [])"
  using assms
  by (simp add: saveEdit_def saveEdit_begin_def saveEdit_resolve_def cancelEdit_def split: option.splits)

theorem save_idle_on_success_only_witness:
  "editingTodo editing = Some 1 \<and> (1::int) \<noteq> 0 \<and> trim (editText editing) \<noteq> [] \<and>
   saveEdit Rejected editing = (editing, [UpdateTask ''A'' 1]) \<and>
   snd (saveEdit ok editing) = [UpdateTask ''A'' 1] \<and>
   editingTodo (fst (saveEdit ok editing)) = None \<and> editText (fst (saveEdit ok editing)) = []"
proof -
  have h: "editingTodo editing = Some 1" "(1::int) \<noteq> 0" "trim (editText editing) \<noteq> []"
    by (simp_all add: editing_simps trim_A)
  show ?thesis
    using save_idle_on_success_only [OF h, of Rejected] save_idle_on_success_only [OF h, of ok] h
    by (simp add: editing_simps trim_A ok_def)
qed

text \<open>
  Claim C4 as stated fails: after a failed round trip the first task of \<open>editing\<close> is still
  being edited.
\<close>

theorem save_stays_editing_on_failure:
  "editingTodo editing = Some 1 \<and> trim (editText editing) = ''A'' \<and>
   snd (saveEdit (Response True None) editing) = [UpdateTask ''A'' 1] \<and>
   editingTodo (fst (saveEdit (Response True None) editing)) = Some 1"
  by (simp add: saveEdit_def saveEdit_begin_def saveEdit_resolve_def editing_simps trim_A)

text \<open>
  Claim C10. In a state that edits an id which no task of the collection has, with a draft that
  is not empty after trimming, \<open>saveEdit\<close> sends the rename request, and when the round trip
  succeeds only the edit state changes: it becomes idle, the collection is as before. The edited
  id is the id of a row of the store, which numbers its rows from 1 (\<open>id BIGSERIAL\<close>): it is
  not 0.
\<close>

theorem save_unknown_id:
  assumes "editingTodo s = Some i" and "i \<noteq> 0" and "trim (editText s) \<noteq> []"
    and "\<forall>r\<in>set (arrays s (todos s)). id' (objs s r) \<noteq> i"
    and "\<not> failed resp"
  shows "saveEdit resp s =
           (s\<lparr>editingTodo := None, editText := []\<rparr>, [UpdateTask (trim (editText s)) i])"
proof -
  have "find (\<lambda>r. Some (id' (objs s r)) = editingTodo s) (arrays s (todos s)) = None"
    using assms(1,4) by (intro find_none) simp
  then show ?thesis
    using assms by (simp add: saveEdit_def saveEdit_begin_def saveEdit_resolve_def cancelEdit_def)
qed

theorem save_unknown_id_witness:
  "editingTodo editing_gone = Some 1 \<and> (1::int) \<noteq> 0 \<and> trim (editText editing_gone) \<noteq> [] \<and>
   map id' (collection editing_gone) = [2] \<and> \<not> failed ok \<and>
   saveEdit ok editing_gone =
     (editing_gone\<lparr>editingTodo := None, editText := []\<rparr>, [UpdateTask ''A'' 1])"
proof -
  have h: "editingTodo editing_gone = Some 1" "(1::int) \<noteq> 0" "trim (editText editing_gone) \<noteq> []"
    "\<forall>r\<in>set (arrays editing_gone (todos editing_gone)). id' (objs editing_gone r) \<noteq> 1"
    "\<not> failed ok"
    by (simp_all add: editing_gone_simps trim_A ex_t2_def ok_def)
  show ?thesis
    using save_unknown_id [OF h] h
    by (simp add: editing_gone_simps trim_A collection_def ex_t2_def)
qed

text \<open>
  The id 0, which no row of the store has, is the one id that \<open>saveEdit\<close> takes for "nothing
  edited": were a row to carry it, saving its edit would send no request.
\<close>

lemma saveEdit_id_zero:
  "editingTodo editing_deleted = Some 0 \<and> trim (editText editing_deleted) = ''Z'' \<and>
   collection editing_deleted = [] \<and>
   saveEdit ok editing_deleted = (editing_deleted, [])"
  by (simp add: saveEdit_def saveEdit_begin_def editing_deleted_simps trim_A collection_def)

text \<open>
  Claim C1. \<open>clearCompleted\<close> sends the ids of the tasks completed at the call, and on success
  should remove exactly those tasks. The handler filters by the \<open>completed\<close> flags of the moment
  the response arrives instead: in \<open>loaded\<close> the request names task 2; both tasks are toggled
  before the response arrives; then task 1 is removed and task 2 stays.
\<close>

theorem clearCompleted_ignores_snapshot:
  "clearCompleted_begin loaded = Some (DeleteIn [2]) \<and>
   map id' (collection toggled_back) = [1, 2] \<and>
   map completed (collection toggled_back) = [True, False] \<and>
   map id' (collection (clearCompleted_resolve toggled_back ok)) = [2]"
  by code_simp

section \<open>The displayed view\<close>

text \<open>
  Claim C2. Computing the view should leave the stored collection as it is and give a sequence of
  its own. With no filter set, as in \<open>loaded\<close>, \<open>filteredTodos\<close> returns the array of the
  collection itself, sorted in place: the stored order changes.
\<close>

theorem filteredTodos_sorts_stored_array:
  "fst (filteredTodos ''2025-06-14'' loaded) = todos loaded \<and>
   collection loaded = [ex_t1, ex_t2] \<and>
   collection (snd (filteredTodos ''2025-06-14'' loaded)) = [ex_t2, ex_t1]"
  by code_simp




text \<open>
  Claim C5. Any two adjacent tasks \<open>a\<close>, \<open>b\<close> of the view satisfy: the priority rank of \<open>a\<close> is
  above that of \<open>b\<close>, or the ranks are equal and \<open>a\<close> was created no earlier than \<open>b\<close>
  (ranks: high 3, medium 2, low 1).
\<close>

theorem view_sorted:
  assumes "Suc k < length (view today s)"
  shows "(let a = view today s ! k; b = view today s ! Suc k
          in priorityOrder (priority b) < priorityOrder (priority a) \<or>
             priorityOrder (priority a) = priorityOrder (priority b) \<and> created_at b \<le> created_at a)"
proof -
  have "sorted_wrt before (view today s)"
    by (simp add: view_eq sorted_wrt_map sorted_sort_cmp)
  then have "before (view today s ! k) (view today s ! Suc k)"
    using assms by (simp add: sorted_wrt_nth_less)
  then show ?thesis
    by (simp add: before_def)
qed

theorem view_sorted_witness:
  "Suc 0 < length (view ''2025-06-14'' loaded) \<and>
   view ''2025-06-14'' loaded ! 0 = ex_t2 \<and> view ''2025-06-14'' loaded ! Suc 0 = ex_t1 \<and>
   priorityOrder (priority ex_t1) < priorityOrder (priority ex_t2)"
proof -
  have v: "view ''2025-06-14'' loaded = [ex_t2, ex_t1]"
    by code_simp
  then have l: "Suc 0 < length (view ''2025-06-14'' loaded)"
    by simp
  have "priority ex_t1 \<noteq> priority ex_t2"
    by (simp add: ex_t1_def ex_t2_def)
  then have "priorityOrder (priority ex_t1) \<noteq> priorityOrder (priority ex_t2)"
    by (cases "priority ex_t1"; cases "priority ex_t2") simp_all
  with view_sorted [OF l] v l show ?thesis
    by (simp add: Let_def)
qed

section \<open>The completion percentage\<close>

text \<open>
  Claim C6. The completion percentage is to be 0 for the empty collection and otherwise 100 times
  the completed count over the total count, rounded to the nearest integer. With 23 of 40 tasks
  completed the exact value is 57.5, which rounds to 58; the code gives 57, since the quotient
  23 / 40 is rounded to binary64 before it is multiplied by 100.
\<close>

theorem completionPercentage_tie:
  "length (collection (progress 23 40)) = 40 \<and>
   length (filter completed (collection (progress 23 40))) = 23 \<and>
   completionPercentage (progress 23 40) = 57 \<and> round (100 * 23 / 40 :: rat) = 58"
  using completionPercentage_progress [of 23 40] percentage_23_40 round_23_40
  by (simp add: collection_progress rows_counts)

text \<open>
  The miss is confined to exact halves, and is no rounding rule of its own: 1 of 8 is 12.5 and
  gives 13. For fewer than \<open>2\<^sup>3\<^sup>2\<close> tasks (the bound on the length of an array) the empty
  collection gives 0; with \<open>y\<close> the exact value, the code gives \<open>y\<close> rounded half up whenever
  \<open>y\<close> is not exactly halfway between two integers, and that value or one less at an exact half;
  and flipping a task from not completed to completed never decreases the percentage.
\<close>

lemma completionPercentage_1_8:
  "completionPercentage (progress 1 8) = 13 \<and> round (100 * 1 / 8 :: rat) = 13"
proof -
  have "mathRound (to_double (to_double (1 / 8) * 100)) = 13"
    by code_simp
  moreover have "round (100 * 1 / 8 :: rat) = 13"
    by code_simp
  ultimately show ?thesis
    using completionPercentage_progress [of 1 8] by simp
qed

lemma completionPercentage_near_exact:
  assumes "length (collection s) < 2 ^ 32"
  shows "(collection s = [] \<longrightarrow> completionPercentage s = 0) \<and>
         (collection s \<noteq> [] \<longrightarrow>
            (let y = 100 * of_nat (length (filter completed (collection s)))
                       / of_nat (length (collection s)) :: rat
             in (frac y \<noteq> 1 / 2 \<longrightarrow> completionPercentage s = round y) \<and>
                (frac y = 1 / 2 \<longrightarrow>
                   completionPercentage s = round y \<or> completionPercentage s = round y - 1))) \<and>
         (\<not> completed (objs s r) \<longrightarrow>
            completionPercentage s \<le> completionPercentage (toggleTodo_resolve r s ok))"
proof (intro conjI impI)
  assume "collection s = []"
  then show "completionPercentage s = 0"
    by (simp add: completionPercentage_collection)
next
  assume ne: "collection s \<noteq> []"
  define c where "c = length (filter completed (collection s))"
  define n where "n = length (collection s)"
  define y :: rat where "y = 100 * of_nat c / of_nat n"
  have n: "0 < n" "n < 2 ^ 32" "c \<le> n"
    using ne assms by (simp_all add: n_def c_def)
  have p: "completionPercentage s = mathRound (to_double (to_double (of_nat c / of_nat n) * 100))"
    using n(1) by (simp add: completionPercentage_collection c_def n_def)
  have "\<bar>to_double (to_double (of_nat c / of_nat n) * 100) - y\<bar> \<le> 201 / 2 ^ 53"
    unfolding y_def using n(1,3) by (rule percentage_close)
  from mathRound_near [OF n(1,2) y_def this]
  have "(frac y \<noteq> 1 / 2 \<longrightarrow> completionPercentage s = round y) \<and>
        (frac y = 1 / 2 \<longrightarrow>
           completionPercentage s = round y \<or> completionPercentage s = round y - 1)"
    unfolding p .
  then show "let y = 100 * of_nat (length (filter completed (collection s)))
                       / of_nat (length (collection s)) :: rat
             in (frac y \<noteq> 1 / 2 \<longrightarrow> completionPercentage s = round y) \<and>
                (frac y = 1 / 2 \<longrightarrow>
                   completionPercentage s = round y \<or> completionPercentage s = round y - 1)"
    unfolding y_def c_def n_def Let_def .
next
  assume "\<not> completed (objs s r)"
  note t = toggle_counts [OF this]
  show "completionPercentage s \<le> completionPercentage (toggleTodo_resolve r s ok)"
    unfolding completionPercentage_collection t(1)
    using percentage_mono [OF t(2)] by simp
qed

lemma completionPercentage_near_exact_example:
  "length (collection loaded) < 2 ^ 32 \<and> collection loaded \<noteq> [] \<and>
   length (filter completed (collection loaded)) = 1 \<and> length (collection loaded) = 2 \<and>
   frac (100 * 1 / 2 :: rat) \<noteq> 1 / 2 \<and> completionPercentage loaded = 50 \<and>
   \<not> completed (objs loaded 0) \<and>
   completionPercentage loaded \<le> completionPercentage (toggleTodo_resolve 0 loaded ok)"
proof -
  have c: "collection loaded = [ex_t1, ex_t2]"
    by code_simp
  have k: "length (filter completed (collection loaded)) = 1" "length (collection loaded) = 2"
    "\<not> completed (objs loaded 0)"
    unfolding c by (simp_all add: ex_t1_def ex_t2_def loaded_simps)
  have l: "length (collection loaded) < 2 ^ 32" "collection loaded \<noteq> []"
    unfolding c by simp_all
  have f: "frac (100 * 1 / 2 :: rat) \<noteq> 1 / 2"
    by (simp add: frac_def)
  have r: "round (100 * 1 / 2 :: rat) = 50"
    by code_simp
  from completionPercentage_near_exact [OF l(1), of 0] l(2) k f r
  show ?thesis
    by (simp add: Let_def)
qed

text \<open>
  Multiplying first would not miss: \<open>Math.round(100 * c / n)\<close> is the exact value rounded half
  up, an exact half being a binary64 value itself.
\<close>

lemma to_double_exact:
  assumes "0 < x" "x < 2 ^ 52" "x = of_int m / 2"
  shows "to_double x = x"
proof -
  obtain j :: int where j: "pow2_floor x = 2 powi j"
    using pow2_floor_power by blast
  define P :: rat where "P = 2 powi j"
  define N :: int where "N = 2 ^ nat (51 - j)"
  have p: "0 < P" "P \<le> x"
    using pow2_floor_bounds [OF assms(1)] by (simp_all add: P_def j)
  have "\<not> 52 \<le> j"
  proof
    assume "52 \<le> j"
    then have "(2::rat) powi 52 \<le> 2 powi j"
      by (intro power_int_increasing) simp_all
    with p(2) assms(2) show False by (simp add: P_def)
  qed
  then have k: "0 \<le> 51 - j" by simp
  have N: "of_int N = (2::rat) powi (51 - j)"
    using k by (simp add: N_def power_int_def)
  have "(2::rat) powi ((51 - j) + j) = 2 powi (51 - j) * 2 powi j"
    by (rule power_int_add) simp
  then have "(2::rat) powi 51 = of_int N * P"
    by (simp add: N P_def)
  moreover have "(2::rat) ^ 52 = 2 * 2 powi 51"
    by simp
  ultimately have e52: "(2::rat) ^ 52 = 2 * (of_int N * P)"
    by (simp only:)
  have "x / (P / 2 ^ 52) = of_int (m * N)"
    unfolding e52 assms(3) using p(1) by simp
  then have "round_even (x / (P / 2 ^ 52)) = m * N"
    by (simp only: round_even_of_int)
  then have "to_double x = of_int (m * N) * (P / 2 ^ 52)"
    using to_double_pos [OF assms(1)] by (simp add: j P_def)
  also have "\<dots> = x"
    unfolding e52 assms(3) using p(1) N by simp
  finally show ?thesis .
qed

lemma multiply_first_exact:
  assumes "0 < n" "n < 2 ^ 32" "c \<le> n"
  shows "mathRound (to_double (100 * of_nat c / of_nat n)) = round (100 * of_nat c / of_nat n :: rat)"
proof -
  define y :: rat where "y = 100 * of_nat c / of_nat n"
  have y: "0 \<le> y" "y \<le> 100"
    using assms by (simp_all add: y_def pos_divide_le_eq)
  show ?thesis
  proof (cases "frac y = 1 / 2")
    case True
    then have "y = of_int (2 * \<lfloor>y\<rfloor> + 1) / 2"
      by (simp add: frac_def algebra_simps)
    moreover from True have "0 < y"
      using y(1) by (cases "y = 0") simp_all
    moreover have "y < 2 ^ 52"
      using y(2) by simp
    ultimately have "to_double y = y"
      by (intro to_double_exact)
    then show ?thesis
      unfolding y_def [symmetric] by (simp add: mathRound_def round_def)
  next
    case False
    have "\<bar>to_double y - y\<bar> \<le> 201 / 2 ^ 53"
    proof (cases "y = 0")
      case True
      then show ?thesis by (simp add: to_double_def)
    next
      case False
      with y have "0 < y" by simp
      from to_double_error [OF this] have "\<bar>to_double y - y\<bar> \<le> y / 2 ^ 53" .
      also have "\<dots> \<le> 201 / 2 ^ 53"
        using y(2) by (simp add: divide_right_mono)
      finally show ?thesis .
    qed
    from mathRound_near [OF assms(1,2) y_def this] False show ?thesis
      unfolding y_def [symmetric] by simp
  qed
qed

end
